theory Spec2Isabelle
  imports Complex_Main "HOL-Library.Log_Nat"
begin

section \<open>The GPA engine of CGPA\_CAL (gradeService), embedded from the TypeScript source\<close>

subsection \<open>Numbers\<close>

text \<open>
  A TypeScript \<^verbatim>\<open>number\<close> is an IEEE 754 binary64 value. Every finite one is a rational
  number, so a number is a \<^typ>\<open>rat\<close> here. The comparisons \<^verbatim>\<open><\<close>, \<^verbatim>\<open><=\<close>, \<^verbatim>\<open>===\<close> of the
  source are exact on finite numbers and are the comparisons of \<^typ>\<open>rat\<close>. The arithmetic
  operators \<^verbatim>\<open>+\<close>, \<^verbatim>\<open>*\<close>, \<^verbatim>\<open>/\<close> return the exact result rounded to the nearest binary64
  value, ties to the even significand: that rounding is \<open>fl\<close> below (53 significant bits, the
  exponent unbounded). Not modelled: \<^verbatim>\<open>NaN\<close>, the infinities, overflow beyond \<open>2^1024\<close> and the
  subnormal range below \<open>2^-1022\<close>; no input used below comes near either end.
\<close>

definition rne :: "rat \<Rightarrow> int" where
  \<comment> \<open>the nearest integer, a tie going to the even one\<close>
  "rne x = (let f = \<lfloor>x\<rfloor>; d = x - of_int f
            in if d < 1/2 then f else if 1/2 < d then f + 1 else if even f then f else f + 1)"

definition binade :: "rat \<Rightarrow> int" where
  \<comment> \<open>for \<open>x \<noteq> 0\<close>, the exponent \<open>e\<close> with \<open>2^e \<le> \<bar>x\<bar> < 2^(e+1)\<close>; \<open>bitlen\<close> counts the
      binary digits of a positive integer\<close>
  "binade x = (let (p, q) = quotient_of \<bar>x\<bar>;
                   e0 = bitlen p - bitlen q
               in if power_int 2 e0 \<le> \<bar>x\<bar> then e0 else e0 - 1)"

definition fl :: "rat \<Rightarrow> rat" where
  \<comment> \<open>round to nearest binary64, ties to even\<close>
  "fl x = (if x = 0 then 0
           else let e = binade x - 52
                in of_int (rne (x / power_int 2 e)) * power_int 2 e)"

definition js_add :: "rat \<Rightarrow> rat \<Rightarrow> rat" where
  "js_add a b = fl (a + b)"

definition js_mul :: "rat \<Rightarrow> rat \<Rightarrow> rat" where
  "js_mul a b = fl (a * b)"

definition js_div :: "rat \<Rightarrow> rat \<Rightarrow> rat" where
  \<comment> \<open>only ever called with \<open>b \<noteq> 0\<close>: both callers return before dividing by zero\<close>
  "js_div a b = fl (a / b)"

definition Math_round :: "rat \<Rightarrow> rat" where
  \<comment> \<open>\<^verbatim>\<open>Math.round\<close>: the nearest integer, a tie going up; exact, the result is an integer
      that binary64 holds\<close>
  "Math_round x = of_int \<lfloor>x + 1/2\<rfloor>"

text \<open>
  The two roundings to two decimal places that the specification names, on exact
  rationals: half away from zero and half to even. They are the specification's side of
  the comparison; the source computes \<^verbatim>\<open>Math.round(x * 100) / 100\<close> instead.
\<close>

definition spec_round2_half_away :: "rat \<Rightarrow> rat" where
  "spec_round2_half_away x =
     (if 0 \<le> x then of_int \<lfloor>x * 100 + 1/2\<rfloor> / 100 else - (of_int \<lfloor>- x * 100 + 1/2\<rfloor> / 100))"

definition spec_round2_half_even :: "rat \<Rightarrow> rat" where
  "spec_round2_half_even x = of_int (rne (x * 100)) / 100"

subsection \<open>Strings and exceptions\<close>

text \<open>
  \<^verbatim>\<open>String.prototype.toUpperCase\<close> on the ASCII range: the letters \<open>a\<close> to \<open>z\<close> go to
  \<open>A\<close> to \<open>Z\<close>, every other character stays. (Beyond ASCII no character has one of the
  letters \<open>A\<close> to \<open>F\<close> as its upper case, so the lookup of \<open>gradeToPoint\<close> is not
  affected by what the source does there.)
\<close>

definition toUpperCase_char :: "char \<Rightarrow> char" where
  "toUpperCase_char c =
     (let n = (of_char c :: nat) in if 97 \<le> n \<and> n \<le> 122 then char_of (n - 32) else c)"

definition toUpperCase :: "string \<Rightarrow> string" where
  "toUpperCase s = map toUpperCase_char s"

text \<open>
  The exception classes: the generic \<^verbatim>\<open>Error\<close> and its built-in subclass \<^verbatim>\<open>RangeError\<close>,
  each with its message. A function that can throw returns \<open>js_error + 'a\<close>.
\<close>

datatype js_error = Error string | RangeError string

fun raises_RangeError :: "js_error + 'a \<Rightarrow> bool" where
  "raises_RangeError (Inl (RangeError msg)) = True"
| "raises_RangeError (Inl (Error msg)) = False"
| "raises_RangeError (Inr v) = False"

fun raises :: "js_error + 'a \<Rightarrow> bool" where
  "raises (Inl e) = True"
| "raises (Inr v) = False"

subsection \<open>The grading scale\<close>

record grade_band =
  minScore :: rat
  maxScore :: rat
  grade :: string
  point :: rat

definition GRADING_SCALE :: "grade_band list" where
  "GRADING_SCALE =
     [\<lparr>minScore = 70, maxScore = 100, grade = ''A'', point = 5\<rparr>,
      \<lparr>minScore = 60, maxScore = 69, grade = ''B'', point = 4\<rparr>,
      \<lparr>minScore = 50, maxScore = 59, grade = ''C'', point = 3\<rparr>,
      \<lparr>minScore = 45, maxScore = 49, grade = ''D'', point = 2\<rparr>,
      \<lparr>minScore = 40, maxScore = 44, grade = ''E'', point = 1\<rparr>,
      \<lparr>minScore = 0, maxScore = 39, grade = ''F'', point = 0\<rparr>]"

definition band_matches :: "rat \<Rightarrow> grade_band \<Rightarrow> bool" where
  \<comment> \<open>the predicate \<^verbatim>\<open>(g) => score >= g.minScore && score <= g.maxScore\<close>\<close>
  "band_matches score g \<longleftrightarrow> score \<ge> minScore g \<and> score \<le> maxScore g"

definition scoreToGrade :: "rat \<Rightarrow> js_error + string" where
  \<comment> \<open>\<^verbatim>\<open>gradeEntry?.grade || 'F'\<close>: the default stands in when \<^verbatim>\<open>find\<close> returns nothing and
      when the grade found is the empty string\<close>
  "scoreToGrade score =
     (if score < 0 \<or> score > 100 then Inl (Error ''Score must be between 0 and 100'')
      else let gradeEntry = find (band_matches score) GRADING_SCALE
           in Inr (case gradeEntry of
                     None \<Rightarrow> ''F''
                   | Some g \<Rightarrow> if grade g = [] then ''F'' else grade g))"

definition gradeToPoint :: "string \<Rightarrow> rat" where
  \<comment> \<open>the parameter \<^verbatim>\<open>grade\<close> of the source is \<open>gr\<close> here, \<open>grade\<close> being the field of a band;
      \<^verbatim>\<open>gradeEntry?.point || 0\<close>\<close>
  "gradeToPoint gr =
     (let gradeEntry = find (\<lambda>g. grade g = toUpperCase gr) GRADING_SCALE
      in case gradeEntry of
           None \<Rightarrow> 0
         | Some g \<Rightarrow> if point g = 0 then 0 else point g)"

definition scoreToPoint :: "rat \<Rightarrow> js_error + rat" where
  "scoreToPoint score =
     (case scoreToGrade score of
        Inl e \<Rightarrow> Inl e
      | Inr gr \<Rightarrow> Inr (gradeToPoint gr))"

subsection \<open>GPA and CGPA\<close>

text \<open>
  The object types of the two signatures: \<^verbatim>\<open>{ gradePoint, courseUnit }\<close>,
  \<^verbatim>\<open>{ totalUnits, totalPoints }\<close>, and the two results, which add \<^verbatim>\<open>gpa\<close> and \<^verbatim>\<open>cgpa\<close> to
  the latter.
\<close>

record scored_course =
  gradePoint :: rat
  courseUnit :: rat

record semester_aggregate =
  totalUnits :: rat
  totalPoints :: rat

record gpa_result = semester_aggregate +
  gpa :: rat

record cgpa_result = semester_aggregate +
  cgpa :: rat

definition calculateGPA :: "scored_course list \<Rightarrow> gpa_result" where
  "calculateGPA results =
     (if length results = 0 then \<lparr>totalUnits = 0, totalPoints = 0, gpa = 0\<rparr>
      else
        let totalUnits = foldl (\<lambda>sum r. js_add sum (courseUnit r)) 0 results;
            totalPoints =
              foldl (\<lambda>sum r. js_add sum (js_mul (gradePoint r) (courseUnit r))) 0 results
        in if totalUnits = 0 then \<lparr>totalUnits = 0, totalPoints = 0, gpa = 0\<rparr>
           else
             let gpa = js_div totalPoints totalUnits
             in \<lparr>totalUnits = totalUnits, totalPoints = totalPoints,
                 gpa = js_div (Math_round (js_mul gpa 100)) 100\<rparr>)"

definition calculateCGPA :: "semester_aggregate list \<Rightarrow> cgpa_result" where
  "calculateCGPA semesterResults =
     (if length semesterResults = 0 then \<lparr>totalUnits = 0, totalPoints = 0, cgpa = 0\<rparr>
      else
        let totalUnits =
              foldl (\<lambda>sum s. js_add sum (semester_aggregate.totalUnits s)) 0 semesterResults;
            totalPoints =
              foldl (\<lambda>sum s. js_add sum (semester_aggregate.totalPoints s)) 0 semesterResults
        in if totalUnits = 0 then \<lparr>totalUnits = 0, totalPoints = 0, cgpa = 0\<rparr>
           else
             let cgpa = js_div totalPoints totalUnits
             in \<lparr>totalUnits = totalUnits, totalPoints = totalPoints,
                 cgpa = js_div (Math_round (js_mul cgpa 100)) 100\<rparr>)"

subsection \<open>Class of degree\<close>

definition getClassOfDegree :: "rat \<Rightarrow> string" where
  \<comment> \<open>the parameter \<^verbatim>\<open>cgpa\<close> of the source is \<open>c\<close> here; 4.5, 3.5, 2.5, 1.5 and 1.0 are
      binary64 numbers\<close>
  "getClassOfDegree c =
     (if c \<ge> 9/2 then ''First Class Honours''
      else if c \<ge> 7/2 then ''Second Class Upper''
      else if c \<ge> 5/2 then ''Second Class Lower''
      else if c \<ge> 3/2 then ''Third Class''
      else if c \<ge> 1 then ''Pass''
      else ''Fail'')"

section \<open>Properties\<close>

subsection \<open>The rounding model\<close>

text \<open>
  \<open>fl\<close> at some well-known inputs: the binary64 numbers nearest to 0.1 and to one third,
  and ties-to-even just above \<open>2^53\<close>.
\<close>

lemma fl_examples:
  "fl (1/10) = 3602879701896397 / 36028797018963968"
  "fl (1/3) = 6004799503160661 / 18014398509481984"
  "fl (9007199254740993) = 9007199254740992"
  "fl (9007199254740995) = 9007199254740996"
  "fl (- (1/10)) = - (3602879701896397 / 36028797018963968)"
  by code_simp+

text \<open>
  \<open>rne\<close> fixes the integers and moves no number by more than one half.
\<close>

lemma rne_of_int: "rne (of_int k) = k"
  by (simp add: rne_def)

lemma rne_pos: "1 \<le> x \<Longrightarrow> 1 \<le> rne x"
  by (auto simp add: rne_def Let_def intro: order_trans)

lemma rne_error: "\<bar>of_int (rne y) - y\<bar> \<le> 1/2"
proof -
  have "of_int \<lfloor>y\<rfloor> \<le> y" and "y < of_int \<lfloor>y\<rfloor> + 1"
    by linarith+
  then show ?thesis
    by (auto simp add: rne_def Let_def abs_le_iff)
qed

text \<open>
  \<open>binade\<close> is the exponent of its argument: \<open>2^(binade x) \<le> \<bar>x\<bar> < 2^(binade x + 1)\<close>.
\<close>

lemma quotient_of_abs:
  assumes "x \<noteq> 0"
  obtains p q where "quotient_of \<bar>x\<bar> = (p, q)" and "0 < p" and "0 < q"
    and "\<bar>x\<bar> = of_int p / of_int q"
proof -
  obtain p q where pq: "quotient_of \<bar>x\<bar> = (p, q)"
    by (cases "quotient_of \<bar>x\<bar>")
  then have q: "0 < q" and x: "\<bar>x\<bar> = of_int p / of_int q"
    by (simp_all add: quotient_of_denom_pos quotient_of_div)
  have "0 < \<bar>x\<bar>" using assms by simp
  with q x have "0 < p"
    by (simp add: zero_less_divide_iff)
  with pq q x show ?thesis
    by (intro that)
qed

lemma binade_lower:
  assumes "x \<noteq> 0"
  shows "power_int 2 (binade x) \<le> \<bar>x\<bar>"
proof -
  obtain p q where pq: "quotient_of \<bar>x\<bar> = (p, q)" and p: "0 < p" and q: "0 < q"
    and x: "\<bar>x\<bar> = of_int p / of_int q"
    using assms by (rule quotient_of_abs)
  define e0 where "e0 = bitlen p - bitlen q"
  show ?thesis
  proof (cases "power_int 2 e0 \<le> \<bar>x\<bar>")
    case True
    then show ?thesis
      by (simp add: binade_def pq e0_def)
  next
    case False
    then have b: "binade x = e0 - 1"
      by (simp add: binade_def pq e0_def)
    have bp: "1 \<le> bitlen p" and bq: "1 \<le> bitlen q"
      using p q bitlen_eq_zero_iff [of p] bitlen_eq_zero_iff [of q]
        bitlen_nonneg [of p] bitlen_nonneg [of q]
      by linarith+
    have "(2::int) ^ nat (bitlen p - 1) \<le> p"
      using bitlen_bounds [OF p] by simp
    then have "(of_int ((2::int) ^ nat (bitlen p - 1)) :: rat) \<le> of_int p"
      by (simp only: of_int_le_iff)
    then have lo: "power_int (2::rat) (bitlen p - 1) \<le> of_int p"
      using bp by (simp add: power_int_def)
    have "q < (2::int) ^ nat (bitlen q)"
      using bitlen_bounds [OF q] by simp
    then have "(of_int q :: rat) < of_int ((2::int) ^ nat (bitlen q))"
      by (simp only: of_int_less_iff)
    then have hi: "of_int q < power_int (2::rat) (bitlen q)"
      using bq by (simp add: power_int_def)
    have "e0 - 1 = (bitlen p - 1) - bitlen q"
      by (simp add: e0_def)
    then have "power_int (2::rat) (e0 - 1) = power_int 2 (bitlen p - 1) / power_int 2 (bitlen q)"
      by (simp only: power_int_diff [of "2::rat"] numeral_neq_zero simp_thms)
    also have "\<dots> \<le> of_int p / power_int 2 (bitlen q)"
      using lo by (simp add: divide_right_mono)
    also have "\<dots> \<le> of_int p / of_int q"
      using hi p q by (simp add: frac_le)
    finally show ?thesis
      by (simp add: b x)
  qed
qed

lemma binade_upper:
  assumes "x \<noteq> 0"
  shows "\<bar>x\<bar> < power_int 2 (binade x + 1)"
proof -
  obtain p q where pq: "quotient_of \<bar>x\<bar> = (p, q)" and p: "0 < p" and q: "0 < q"
    and x: "\<bar>x\<bar> = of_int p / of_int q"
    using assms by (rule quotient_of_abs)
  define e0 where "e0 = bitlen p - bitlen q"
  show ?thesis
  proof (cases "power_int 2 e0 \<le> \<bar>x\<bar>")
    case False
    then show ?thesis
      by (simp add: binade_def pq e0_def)
  next
    case True
    then have b: "binade x = e0"
      by (simp add: binade_def pq e0_def)
    have bp: "1 \<le> bitlen p" and bq: "1 \<le> bitlen q"
      using p q bitlen_eq_zero_iff [of p] bitlen_eq_zero_iff [of q]
        bitlen_nonneg [of p] bitlen_nonneg [of q]
      by linarith+
    have "p < (2::int) ^ nat (bitlen p)"
      using bitlen_bounds [OF p] by simp
    then have "(of_int p :: rat) < of_int ((2::int) ^ nat (bitlen p))"
      by (simp only: of_int_less_iff)
    then have hi: "of_int p < power_int (2::rat) (bitlen p)"
      using bp by (simp add: power_int_def)
    have "(2::int) ^ nat (bitlen q - 1) \<le> q"
      using bitlen_bounds [OF q] by simp
    then have "(of_int ((2::int) ^ nat (bitlen q - 1)) :: rat) \<le> of_int q"
      by (simp only: of_int_le_iff)
    then have lo: "power_int (2::rat) (bitlen q - 1) \<le> of_int q"
      using bq by (simp add: power_int_def)
    have "of_int p / of_int q < power_int (2::rat) (bitlen p) / of_int q"
      using hi q by (simp add: divide_strict_right_mono)
    also have "\<dots> \<le> power_int 2 (bitlen p) / power_int 2 (bitlen q - 1)"
      using lo q by (intro divide_left_mono) (simp_all add: zero_less_mult_iff)
    also have "\<dots> = power_int 2 (bitlen p - (bitlen q - 1))"
      by (simp only: power_int_diff [of "2::rat"] numeral_neq_zero simp_thms)
    also have "bitlen p - (bitlen q - 1) = e0 + 1"
      by (simp add: e0_def)
    finally show ?thesis
      by (simp add: b x)
  qed
qed

lemma binade_of_int:
  assumes "0 < n"
  shows "binade (of_int n) = bitlen n - 1"
proof -
  have b: "1 \<le> bitlen n"
    using assms bitlen_eq_zero_iff [of n] bitlen_nonneg [of n] by linarith
  have "(2::int) ^ nat (bitlen n - 1) \<le> n"
    using bitlen_bounds [OF assms] by simp
  then have "(of_int ((2::int) ^ nat (bitlen n - 1)) :: rat) \<le> of_int n"
    by (simp only: of_int_le_iff)
  then have "power_int (2::rat) (bitlen n - 1) \<le> of_int n"
    using b by (simp add: power_int_def)
  moreover have "\<bar>of_int n :: rat\<bar> = of_int n"
    using assms by simp
  moreover have "bitlen 1 = 1"
    by code_simp
  ultimately show ?thesis
    by (simp add: binade_def)
qed

text \<open>
  \<open>fl\<close> keeps the sign, is within half a unit in the last place (a relative error of
  at most \<open>2^-53\<close>), and leaves every non-negative integer below \<open>2^53\<close> as it is.
\<close>

lemma fl_0: "fl 0 = 0"
  by (simp add: fl_def)

lemma fl_pos:
  assumes "0 < x"
  shows "0 < fl x"
proof -
  define e where "e = binade x - 52"
  have lower: "power_int 2 (binade x) \<le> x"
    using binade_lower [of x] assms by simp
  have "(1::rat) \<le> power_int 2 52"
    by simp
  also have "power_int (2::rat) 52 = power_int 2 (binade x - e)"
    by (simp add: e_def)
  also have "\<dots> = power_int 2 (binade x) / power_int 2 e"
    by (simp only: power_int_diff [of "2::rat"] numeral_neq_zero simp_thms)
  also have "\<dots> \<le> x / power_int 2 e"
    using lower by (rule divide_right_mono) simp
  finally have "1 \<le> rne (x / power_int 2 e)"
    by (rule rne_pos)
  then have "0 < (of_int (rne (x / power_int 2 e)) :: rat) * power_int 2 e"
    by (simp add: zero_less_mult_iff)
  then show ?thesis
    using assms by (simp add: fl_def e_def Let_def)
qed

lemma fl_nonneg_eq_0_iff:
  assumes "0 \<le> x"
  shows "0 \<le> fl x" and "fl x = 0 \<longleftrightarrow> x = 0"
proof -
  show "0 \<le> fl x"
  proof (cases "x = 0")
    case True
    then show ?thesis by (simp add: fl_0)
  next
    case False
    with assms have "0 < fl x" by (simp add: fl_pos)
    then show ?thesis by simp
  qed
  show "fl x = 0 \<longleftrightarrow> x = 0"
  proof
    assume "fl x = 0"
    show "x = 0"
    proof (rule ccontr)
      assume "x \<noteq> 0"
      with assms have "0 < fl x" by (simp add: fl_pos)
      with \<open>fl x = 0\<close> show False by simp
    qed
  next
    assume "x = 0"
    then show "fl x = 0" by (simp add: fl_0)
  qed
qed

lemma fl_error:
  "\<bar>fl x - x\<bar> \<le> \<bar>x\<bar> / 2 ^ 53"
proof (cases "x = 0")
  case True
  then show ?thesis by (simp add: fl_0)
next
  case False
  define e where "e = binade x - 52"
  define u :: rat where "u = power_int 2 e"
  have u: "0 < u"
    by (simp add: u_def)
  have "u * 2 ^ 52 = power_int 2 e * power_int 2 52"
    by (simp add: u_def)
  also have "\<dots> = power_int 2 (e + 52)"
    by (simp only: power_int_add [of "2::rat"] numeral_neq_zero simp_thms)
  also have "\<dots> = power_int 2 (binade x)"
    by (simp add: e_def)
  also have "\<dots> \<le> \<bar>x\<bar>"
    using False by (rule binade_lower)
  finally have ulp: "u * 2 ^ 52 \<le> \<bar>x\<bar>" .
  have "fl x = of_int (rne (x / u)) * u"
    using False by (simp add: fl_def e_def u_def Let_def)
  then have "fl x - x = (of_int (rne (x / u)) - x / u) * u"
    using u by (simp add: algebra_simps)
  then have "\<bar>fl x - x\<bar> = \<bar>of_int (rne (x / u)) - x / u\<bar> * u"
    using u by (simp add: abs_mult)
  also have "\<dots> \<le> 1/2 * u"
    using rne_error [of "x / u"] u by (intro mult_right_mono) simp_all
  also have "\<dots> = u * 2 ^ 52 / 2 ^ 53"
    by simp
  also have "\<dots> \<le> \<bar>x\<bar> / 2 ^ 53"
    using ulp by (intro divide_right_mono) simp_all
  finally show ?thesis .
qed

lemma fl_of_nat_int:
  assumes "0 \<le> n" and "n < 2 ^ 53"
  shows "fl (of_int n) = of_int n"
proof (cases "n = 0")
  case True
  then show ?thesis by (simp add: fl_0)
next
  case False
  with assms have pos: "0 < n" by simp
  have "(2::int) ^ nat (bitlen n - 1) \<le> n"
    using bitlen_bounds [OF pos] by simp
  with assms have "(2::int) ^ nat (bitlen n - 1) < 2 ^ 53"
    by linarith
  then have "nat (bitlen n - 1) < 53"
    by (simp only: power_strict_increasing_iff one_less_numeral_iff semiring_norm)
  then have le: "bitlen n - 1 \<le> 52"
    by simp
  define k where "k = nat (52 - (bitlen n - 1))"
  have e: "binade (of_int n) - 52 = - int k"
    using le by (simp add: k_def binade_of_int [OF pos])
  have p: "power_int (2::rat) (- int k) = 1 / 2 ^ k"
    by (simp add: power_int_minus_divide)
  have "of_int n / power_int (2::rat) (- int k) = of_int (n * 2 ^ k)"
    by (simp add: p)
  then have "rne (of_int n / power_int 2 (- int k)) = n * 2 ^ k"
    by (simp only: rne_of_int)
  then show ?thesis
    using False by (simp add: fl_def e p)
qed

lemma fl_Ints:
  assumes "x \<in> \<int>" and "0 \<le> x" and "x < 2 ^ 53"
  shows "fl x = x"
proof -
  from assms(1) obtain n where x: "x = of_int n"
    by (auto elim: Ints_cases)
  with assms have "0 \<le> n" and "n < 2 ^ 53"
    by simp_all
  then show ?thesis
    unfolding x by (rule fl_of_nat_int)
qed

subsection \<open>Sums as the source computes them\<close>

text \<open>
  The source adds with \<^verbatim>\<open>reduce\<close> from 0, each addition rounded. On non-negative numbers
  the rounded sum is 0 exactly when every summand is 0, and on non-negative integers whose
  sum stays below \<open>2^53\<close> no addition rounds at all.
\<close>

lemma foldl_js_add_nonneg:
  assumes "\<forall>r \<in> set rs. 0 \<le> f r" and "0 \<le> a"
  shows "0 \<le> foldl (\<lambda>sum r. js_add sum (f r)) a rs \<and>
         (foldl (\<lambda>sum r. js_add sum (f r)) a rs = 0 \<longleftrightarrow> a = 0 \<and> (\<forall>r \<in> set rs. f r = 0))"
  using assms
proof (induction rs arbitrary: a)
  case Nil
  then show ?case by simp
next
  case (Cons r rs)
  then have r: "0 \<le> f r" and rs: "\<forall>r \<in> set rs. 0 \<le> f r"
    by simp_all
  from r Cons.prems(2) have s: "0 \<le> a + f r"
    by simp
  then have "0 \<le> js_add a (f r)" and z: "js_add a (f r) = 0 \<longleftrightarrow> a + f r = 0"
    by (simp_all add: js_add_def fl_nonneg_eq_0_iff)
  from Cons.IH [OF rs this(1)] z r Cons.prems(2) show ?case
    by (auto simp add: add_nonneg_eq_0_iff)
qed

lemma foldl_js_add_exact:
  assumes "\<forall>r \<in> set rs. f r \<in> \<int> \<and> 0 \<le> f r" and "a \<in> \<int>" and "0 \<le> a"
    and "a + sum_list (map f rs) < 2 ^ 53"
  shows "foldl (\<lambda>sum r. js_add sum (f r)) a rs = a + sum_list (map f rs)"
  using assms
proof (induction rs arbitrary: a)
  case Nil
  then show ?case by simp
next
  case (Cons r rs)
  then have r: "f r \<in> \<int>" "0 \<le> f r" and rs: "\<forall>r \<in> set rs. f r \<in> \<int> \<and> 0 \<le> f r"
    by simp_all
  from rs have "0 \<le> sum_list (map f rs)"
    by (intro sum_list_nonneg) auto
  with Cons.prems(4) have "a + f r < 2 ^ 53"
    by simp
  moreover have "a + f r \<in> \<int>" and "0 \<le> a + f r"
    using r Cons.prems(2,3) by simp_all
  ultimately have e: "js_add a (f r) = a + f r"
    by (simp add: js_add_def fl_Ints)
  have "foldl (\<lambda>sum r. js_add sum (f r)) (a + f r) rs = (a + f r) + sum_list (map f rs)"
    using rs \<open>a + f r \<in> \<int>\<close> \<open>0 \<le> a + f r\<close> Cons.prems(4)
    by (intro Cons.IH) (simp_all add: add.assoc)
  then show ?case
    by (simp add: e add.assoc)
qed

lemma member_le_sum_list_nonneg:
  fixes xs :: "rat list"
  assumes "\<forall>y \<in> set xs. 0 \<le> y" and "x \<in> set xs"
  shows "x \<le> sum_list xs"
  using assms
proof (induction xs)
  case Nil
  then show ?case by simp
next
  case (Cons y ys)
  then have "0 \<le> sum_list ys"
    by (intro sum_list_nonneg) auto
  with Cons show ?case
    by auto
qed

lemma js_mul_exact:
  assumes "a \<in> \<int>" and "0 \<le> a" and "b \<in> \<int>" and "0 \<le> b" and "a * b < 2 ^ 53"
  shows "js_mul a b = a * b"
  using assms by (simp add: js_mul_def fl_Ints)

subsection \<open>The idiom \<^verbatim>\<open>Math.round(x * 100) / 100\<close> on a quotient of integers\<close>

text \<open>
  For integers \<open>0 \<le> p < 2^43\<close> and \<open>0 < u\<close> the two roundings before \<^verbatim>\<open>Math.round\<close> move
  \<open>100 p / u\<close> by less than \<open>1 / (2 u)\<close>, the least distance from a quotient with
  denominator \<open>u\<close> to a half-integer that it is not equal to. So \<^verbatim>\<open>Math.round\<close> returns an
  integer nearest to \<open>100 p / u\<close>; when \<open>100 p / u\<close> is not a tie (its fractional part is not
  one half) that is the integer of both roundings of the specification, and the idiom
  returns the binary64 number of the specified rounding. Only on a tie can it differ.
\<close>

lemma half_integer_gap:
  fixes p u k :: int
  assumes "0 < u" and "100 * of_int p / of_int u < (of_int k - 1/2 :: rat)"
  shows "100 * of_int p / of_int u + 1 / (2 * of_int u) \<le> (of_int k - 1/2 :: rat)"
proof -
  have u: "(0::rat) < of_int u"
    using assms(1) by simp
  from assms(2) u have "(200 * of_int p :: rat) < (2 * of_int k - 1) * of_int u"
    by (simp add: field_simps)
  then have "(of_int (200 * p) :: rat) < of_int ((2 * k - 1) * u)"
    by simp
  then have "200 * p < (2 * k - 1) * u"
    by (simp only: of_int_less_iff)
  then have "200 * p + 1 \<le> (2 * k - 1) * u"
    by simp
  then have "(of_int (200 * p + 1) :: rat) \<le> of_int ((2 * k - 1) * u)"
    by (simp only: of_int_le_iff)
  then have "(200 * of_int p + 1 :: rat) \<le> (2 * of_int k - 1) * of_int u"
    by simp
  with u show ?thesis
    by (simp add: field_simps)
qed

lemma half_integer_gap':
  fixes p u k :: int
  assumes "0 < u" and "(of_int k + 1/2 :: rat) < 100 * of_int p / of_int u"
  shows "(of_int k + 1/2 :: rat) \<le> 100 * of_int p / of_int u - 1 / (2 * of_int u)"
proof -
  have u: "(0::rat) < of_int u"
    using assms(1) by simp
  from assms(2) u have "(2 * of_int k + 1) * of_int u < (200 * of_int p :: rat)"
    by (simp add: field_simps)
  then have "(of_int ((2 * k + 1) * u) :: rat) < of_int (200 * p)"
    by simp
  then have "(2 * k + 1) * u < 200 * p"
    by (simp only: of_int_less_iff)
  then have "(2 * k + 1) * u + 1 \<le> 200 * p"
    by simp
  then have "(of_int ((2 * k + 1) * u + 1) :: rat) \<le> of_int (200 * p)"
    by (simp only: of_int_le_iff)
  then have "((2 * of_int k + 1) * of_int u + 1 :: rat) \<le> 200 * of_int p"
    by simp
  with u show ?thesis
    by (simp add: field_simps)
qed

lemma scaled_quotient_error:
  assumes "0 \<le> x"
  shows "\<bar>js_mul (fl x) 100 - 100 * x\<bar> \<le> 300 * x / 2 ^ 53"
proof -
  define q where "q = fl x"
  define m where "m = fl (q * 100)"
  have q0: "0 \<le> q"
    using assms by (simp add: q_def fl_nonneg_eq_0_iff)
  have eq: "\<bar>q - x\<bar> \<le> x / 2 ^ 53"
    using fl_error [of x] assms by (simp add: q_def)
  have "x / 2 ^ 53 \<le> x"
    using assms by (simp add: field_simps)
  with eq have q2: "q \<le> 2 * x"
    by linarith
  have "\<bar>m - q * 100\<bar> \<le> q * 100 / 2 ^ 53"
    using fl_error [of "q * 100"] q0 by (simp add: m_def)
  also have "\<dots> \<le> (2 * x) * 100 / 2 ^ 53"
    using q2 by (intro divide_right_mono mult_right_mono) simp_all
  finally have em: "\<bar>m - q * 100\<bar> \<le> 200 * x / 2 ^ 53"
    by simp
  have "m - 100 * x = (m - q * 100) + 100 * (q - x)"
    by simp
  then have "\<bar>m - 100 * x\<bar> \<le> \<bar>m - q * 100\<bar> + \<bar>100 * (q - x)\<bar>"
    by (simp only: abs_triangle_ineq)
  moreover have "\<bar>100 * (q - x)\<bar> = 100 * \<bar>q - x\<bar>"
    by (simp only: abs_mult abs_numeral)
  ultimately have "\<bar>m - 100 * x\<bar> \<le> \<bar>m - q * 100\<bar> + 100 * \<bar>q - x\<bar>"
    by (simp only:)
  also have "\<dots> \<le> 200 * x / 2 ^ 53 + 100 * (x / 2 ^ 53)"
    using em eq by (intro add_mono mult_left_mono) simp_all
  also have "\<dots> = 300 * x / 2 ^ 53"
    by simp
  finally show ?thesis
    by (simp add: js_mul_def m_def q_def)
qed

lemma round_hundredth_nearest:
  fixes p u :: int
  assumes p0: "0 \<le> p" and u0: "0 < u" and pb: "p < 2 ^ 43"
  shows "\<bar>Math_round (js_mul (js_div (of_int p) (of_int u)) 100) - 100 * of_int p / of_int u\<bar>
           \<le> 1/2"
proof -
  define x :: rat where "x = of_int p / of_int u"
  define m where "m = js_mul (fl x) 100"
  define k where "k = \<lfloor>m + 1/2\<rfloor>"
  have u: "(0::rat) < of_int u"
    using u0 by simp
  have x0: "0 \<le> x"
    using p0 u0 by (simp add: x_def)
  have err: "\<bar>m - 100 * x\<bar> \<le> 300 * x / 2 ^ 53"
    unfolding m_def using x0 by (rule scaled_quotient_error)
  have small: "300 * x / 2 ^ 53 < 1 / (2 * of_int u)"
  proof -
    have "600 * p < 2 ^ 53"
      using pb by simp
    then have "(of_int (600 * p) :: rat) < of_int (2 ^ 53)"
      by (simp only: of_int_less_iff)
    then have "(600 * of_int p :: rat) < 2 ^ 53"
      by simp
    with u show ?thesis
      by (simp add: x_def field_simps)
  qed
  have k1: "of_int k \<le> m + 1/2" and k2: "m + 1/2 < of_int k + 1"
    unfolding k_def by linarith+
  have up: "\<not> 100 * x < of_int k - 1/2"
  proof
    assume "100 * x < of_int k - 1/2"
    then have "100 * of_int p / of_int u + 1 / (2 * of_int u) \<le> (of_int k - 1/2 :: rat)"
      using half_integer_gap [OF u0, of p k] by (simp add: x_def)
    then have "100 * x + 1 / (2 * of_int u) \<le> m"
      using k1 by (simp add: x_def)
    with err small show False
      by linarith
  qed
  have down: "\<not> of_int k + 1/2 < 100 * x"
  proof
    assume "of_int k + 1/2 < 100 * x"
    then have "(of_int k + 1/2 :: rat) \<le> 100 * of_int p / of_int u - 1 / (2 * of_int u)"
      using half_integer_gap' [OF u0, of k p] by (simp add: x_def)
    then have "m < 100 * x - 1 / (2 * of_int u)"
      using k2 by (simp add: x_def)
    with err small show False
      by linarith
  qed
  from up down have "\<bar>of_int k - 100 * x\<bar> \<le> 1/2"
    by linarith
  then show ?thesis
    by (simp add: Math_round_def k_def m_def x_def js_div_def)
qed

lemma nearest_integer_unique:
  fixes k :: int and t :: rat
  assumes "\<bar>of_int k - t\<bar> \<le> 1/2" and "frac t \<noteq> 1/2"
  shows "k = \<lfloor>t + 1/2\<rfloor>" and "k = rne t"
proof -
  have f: "of_int \<lfloor>t\<rfloor> \<le> t" "t < of_int \<lfloor>t\<rfloor> + 1"
    by linarith+
  from assms(2) have ne: "t - of_int \<lfloor>t\<rfloor> \<noteq> 1/2"
    by (simp add: frac_def)
  show "k = rne t"
  proof (cases "t - of_int \<lfloor>t\<rfloor> < 1/2")
    case True
    with assms(1) f have "of_int k < of_int \<lfloor>t\<rfloor> + (1::rat)" and "of_int \<lfloor>t\<rfloor> - (1::rat) < of_int k"
      by linarith+
    then have "of_int k < (of_int (\<lfloor>t\<rfloor> + 1) :: rat)" and "(of_int (\<lfloor>t\<rfloor> - 1) :: rat) < of_int k"
      by simp_all
    then have "k < \<lfloor>t\<rfloor> + 1" and "\<lfloor>t\<rfloor> - 1 < k"
      by (simp_all only: of_int_less_iff)
    then have "k = \<lfloor>t\<rfloor>"
      by simp
    with True show ?thesis
      by (simp add: rne_def Let_def)
  next
    case False
    with ne have gt: "1/2 < t - of_int \<lfloor>t\<rfloor>"
      by simp
    with assms(1) f have "of_int k < of_int \<lfloor>t\<rfloor> + (2::rat)" and "(of_int \<lfloor>t\<rfloor> :: rat) < of_int k"
      by linarith+
    then have "of_int k < (of_int (\<lfloor>t\<rfloor> + 2) :: rat)" and "(of_int \<lfloor>t\<rfloor> :: rat) < of_int k"
      by simp_all
    then have "k < \<lfloor>t\<rfloor> + 2" and "\<lfloor>t\<rfloor> < k"
      by (simp_all only: of_int_less_iff)
    then have "k = \<lfloor>t\<rfloor> + 1"
      by simp
    with gt show ?thesis
      by (simp add: rne_def Let_def)
  qed
  have "of_int k \<le> t + 1/2"
    using assms(1) by linarith
  moreover have "t + 1/2 < of_int k + 1"
  proof (rule ccontr)
    assume "\<not> t + 1/2 < of_int k + 1"
    with assms(1) have t: "t = of_int k + 1/2"
      by linarith
    then have "\<lfloor>t\<rfloor> = k"
      by linarith
    with t ne show False
      by simp
  qed
  ultimately show "k = \<lfloor>t + 1/2\<rfloor>"
    by linarith
qed

lemma average_nearest_hundredth:
  fixes p u :: int
  assumes "0 \<le> p" and "0 < u" and "p < 2 ^ 43"
  shows "\<exists>k::int. js_div (Math_round (js_mul (js_div (of_int p) (of_int u)) 100)) 100 =
                     fl (of_int k / 100) \<and>
                   \<bar>of_int k / 100 - of_int p / of_int u\<bar> \<le> (1/200 :: rat)"
proof -
  define k where "k = \<lfloor>js_mul (js_div (of_int p) (of_int u)) 100 + 1/2\<rfloor>"
  have "\<bar>of_int k - 100 * of_int p / of_int u\<bar> \<le> (1/2 :: rat)"
    using round_hundredth_nearest [OF assms] by (simp add: Math_round_def k_def)
  then have "\<bar>of_int k / 100 - of_int p / of_int u\<bar> \<le> (1/200 :: rat)"
    by (simp add: abs_le_iff field_simps)
  moreover have "js_div (Math_round (js_mul (js_div (of_int p) (of_int u)) 100)) 100 =
                   fl (of_int k / 100)"
    by (simp add: Math_round_def k_def js_div_def)
  ultimately show ?thesis
    by blast
qed

lemma average_off_ties:
  fixes p u :: int
  assumes "0 \<le> p" and "0 < u" and "p < 2 ^ 43"
    and "frac (100 * of_int p / of_int u :: rat) \<noteq> 1/2"
  shows "js_div (Math_round (js_mul (js_div (of_int p) (of_int u)) 100)) 100 =
           fl (spec_round2_half_away (of_int p / of_int u))"
    and "spec_round2_half_even (of_int p / of_int u) = spec_round2_half_away (of_int p / of_int u)"
proof -
  define t :: rat where "t = 100 * of_int p / of_int u"
  define k where "k = \<lfloor>js_mul (js_div (of_int p) (of_int u)) 100 + 1/2\<rfloor>"
  have x0: "(0::rat) \<le> of_int p / of_int u"
    using assms(1,2) by simp
  have t: "of_int p / of_int u * 100 = t"
    by (simp add: t_def)
  have near: "\<bar>of_int k - t\<bar> \<le> 1/2"
    using round_hundredth_nearest [OF assms(1-3)] by (simp add: Math_round_def k_def t_def)
  have tie: "frac t \<noteq> 1/2"
    using assms(4) by (simp add: t_def)
  have k: "k = \<lfloor>t + 1/2\<rfloor>" and k': "k = rne t"
    using nearest_integer_unique [OF near tie] by simp_all
  have away: "spec_round2_half_away (of_int p / of_int u) = of_int k / 100"
    using x0 by (simp only: spec_round2_half_away_def t k if_True)
  have even: "spec_round2_half_even (of_int p / of_int u) = of_int k / 100"
    by (simp only: spec_round2_half_even_def t k')
  show "js_div (Math_round (js_mul (js_div (of_int p) (of_int u)) 100)) 100 =
          fl (spec_round2_half_away (of_int p / of_int u))"
    unfolding away by (simp add: Math_round_def k_def js_div_def)
  show "spec_round2_half_even (of_int p / of_int u) = spec_round2_half_away (of_int p / of_int u)"
    by (simp only: away even)
qed

text \<open>
  On a tie the idiom follows neither the exact quotient nor the binary64 one. For 179/40
  and 199/40 it rounds down (claims C1 and C2 below). For 3/40 the binary64 quotient is
  below 0.075, so that rounded to two places it is 0.07, and the idiom returns 0.08.
\<close>

lemma round_idiom_not_rounding_the_quotient:
  "js_div (Math_round (js_mul (js_div 3 40) 100)) 100 = fl (8/100) \<and>
   js_div 3 40 < 3/40 \<and>
   spec_round2_half_away (js_div 3 40) = 7/100 \<and>
   spec_round2_half_even (js_div 3 40) = 7/100 \<and>
   fl (7/100) \<noteq> fl (8/100)"
  by code_simp

subsection \<open>GPA and CGPA of integer records\<close>

text \<open>
  On records of non-negative integers with sums below \<open>2^53\<close> (the courses and semester
  aggregates of the data model), and a positive unit sum, the two totals that
  \<open>calculateGPA\<close> and \<open>calculateCGPA\<close> return are the exact sums, and the average is
  \<^verbatim>\<open>Math.round(totalPoints / totalUnits * 100) / 100\<close> with each operation rounded to
  binary64.
\<close>

lemma calculateGPA_totals:
  assumes ints: "\<forall>r \<in> set results. gradePoint r \<in> \<int> \<and> 0 \<le> gradePoint r \<and>
                   courseUnit r \<in> \<int> \<and> 0 \<le> courseUnit r"
    and pos: "0 < sum_list (map courseUnit results)"
    and bu: "sum_list (map courseUnit results) < 2 ^ 53"
    and bp: "sum_list (map (\<lambda>r. gradePoint r * courseUnit r) results) < 2 ^ 53"
  shows "calculateGPA results =
           \<lparr>totalUnits = sum_list (map courseUnit results),
            totalPoints = sum_list (map (\<lambda>r. gradePoint r * courseUnit r) results),
            gpa = js_div (Math_round (js_mul
                    (js_div (sum_list (map (\<lambda>r. gradePoint r * courseUnit r) results))
                            (sum_list (map courseUnit results))) 100)) 100\<rparr>"
proof -
  let ?U = "sum_list (map courseUnit results)"
  let ?P = "sum_list (map (\<lambda>r. gradePoint r * courseUnit r) results)"
  have ne: "results \<noteq> []"
    using pos by auto
  have units: "foldl (\<lambda>sum r. js_add sum (courseUnit r)) 0 results = ?U"
    using foldl_js_add_exact [of results courseUnit 0] ints bu by simp
  have prod_nonneg: "\<forall>y \<in> set (map (\<lambda>r. gradePoint r * courseUnit r) results). 0 \<le> y"
    using ints by simp
  have mul: "js_mul (gradePoint r) (courseUnit r) = gradePoint r * courseUnit r"
    if "r \<in> set results" for r
  proof -
    have "gradePoint r * courseUnit r \<le> ?P"
      using prod_nonneg that by (intro member_le_sum_list_nonneg) simp_all
    with bp have "gradePoint r * courseUnit r < 2 ^ 53"
      by simp
    with ints that show ?thesis
      by (simp add: js_mul_exact)
  qed
  then have maps: "map (\<lambda>r. js_mul (gradePoint r) (courseUnit r)) results =
                   map (\<lambda>r. gradePoint r * courseUnit r) results"
    by simp
  have "\<forall>r \<in> set results. js_mul (gradePoint r) (courseUnit r) \<in> \<int> \<and>
          0 \<le> js_mul (gradePoint r) (courseUnit r)"
    using ints mul by simp
  then have points:
    "foldl (\<lambda>sum r. js_add sum (js_mul (gradePoint r) (courseUnit r))) 0 results = ?P"
    using foldl_js_add_exact [of results "\<lambda>r. js_mul (gradePoint r) (courseUnit r)" 0] bp
    by (simp add: maps)
  from ne pos show ?thesis
    by (simp add: calculateGPA_def units points Let_def)
qed

lemma calculateCGPA_totals:
  assumes ints: "\<forall>s \<in> set semesterResults. totalUnits s \<in> \<int> \<and> 0 \<le> totalUnits s \<and>
                   totalPoints s \<in> \<int> \<and> 0 \<le> totalPoints s"
    and pos: "0 < sum_list (map totalUnits semesterResults)"
    and bu: "sum_list (map totalUnits semesterResults) < 2 ^ 53"
    and bp: "sum_list (map totalPoints semesterResults) < 2 ^ 53"
  shows "calculateCGPA semesterResults =
           \<lparr>totalUnits = sum_list (map totalUnits semesterResults),
            totalPoints = sum_list (map totalPoints semesterResults),
            cgpa = js_div (Math_round (js_mul
                     (js_div (sum_list (map totalPoints semesterResults))
                             (sum_list (map totalUnits semesterResults))) 100)) 100\<rparr>"
proof -
  have ne: "semesterResults \<noteq> []"
    using pos by auto
  have units: "foldl (\<lambda>sum s. js_add sum (totalUnits s)) 0 semesterResults =
                 sum_list (map totalUnits semesterResults)"
    using foldl_js_add_exact [of semesterResults totalUnits 0] ints bu by simp
  have points: "foldl (\<lambda>sum s. js_add sum (totalPoints s)) 0 semesterResults =
                  sum_list (map totalPoints semesterResults)"
    using foldl_js_add_exact [of semesterResults totalPoints 0] ints bp by simp
  from ne pos show ?thesis
    by (simp add: calculateCGPA_def units points Let_def)
qed

lemma sum_list_Ints:
  fixes xs :: "rat list"
  assumes "\<forall>x \<in> set xs. x \<in> \<int>"
  shows "sum_list xs \<in> \<int>"
  using assms by (induction xs) simp_all

lemma calculateGPA_off_ties:
  assumes ints: "\<forall>r \<in> set results. gradePoint r \<in> \<int> \<and> 0 \<le> gradePoint r \<and>
                   courseUnit r \<in> \<int> \<and> 0 \<le> courseUnit r"
    and pos: "0 < sum_list (map courseUnit results)"
    and bu: "sum_list (map courseUnit results) < 2 ^ 53"
    and bp: "sum_list (map (\<lambda>r. gradePoint r * courseUnit r) results) < 2 ^ 43"
    and tie: "frac (100 * sum_list (map (\<lambda>r. gradePoint r * courseUnit r) results) /
                sum_list (map courseUnit results)) \<noteq> 1/2"
  shows "calculateGPA results =
           \<lparr>totalUnits = sum_list (map courseUnit results),
            totalPoints = sum_list (map (\<lambda>r. gradePoint r * courseUnit r) results),
            gpa = fl (spec_round2_half_away
                    (sum_list (map (\<lambda>r. gradePoint r * courseUnit r) results) /
                     sum_list (map courseUnit results)))\<rparr>"
proof -
  let ?U = "sum_list (map courseUnit results)"
  let ?P = "sum_list (map (\<lambda>r. gradePoint r * courseUnit r) results)"
  have "?U \<in> \<int>" and "?P \<in> \<int>"
    using ints by (intro sum_list_Ints; simp)+
  then obtain u p :: int where u: "?U = of_int u" and p: "?P = of_int p"
    by (auto elim!: Ints_cases)
  have "0 \<le> ?P"
    using ints by (intro sum_list_nonneg) auto
  with pos bp have "0 \<le> p" and "0 < u" and "p < 2 ^ 43"
    unfolding u p by simp_all
  moreover have "frac (100 * of_int p / of_int u :: rat) \<noteq> 1/2"
    using tie unfolding u p .
  ultimately have "js_div (Math_round (js_mul (js_div ?P ?U) 100)) 100 =
                     fl (spec_round2_half_away (?P / ?U))"
    unfolding u p by (rule average_off_ties)
  moreover have "?P < 2 ^ 53"
    using bp by simp
  ultimately show ?thesis
    using calculateGPA_totals [OF ints pos bu] by simp
qed

lemma calculateCGPA_off_ties:
  assumes ints: "\<forall>s \<in> set semesterResults. totalUnits s \<in> \<int> \<and> 0 \<le> totalUnits s \<and>
                   totalPoints s \<in> \<int> \<and> 0 \<le> totalPoints s"
    and pos: "0 < sum_list (map totalUnits semesterResults)"
    and bu: "sum_list (map totalUnits semesterResults) < 2 ^ 53"
    and bp: "sum_list (map totalPoints semesterResults) < 2 ^ 43"
    and tie: "frac (100 * sum_list (map totalPoints semesterResults) /
                sum_list (map totalUnits semesterResults)) \<noteq> 1/2"
  shows "calculateCGPA semesterResults =
           \<lparr>totalUnits = sum_list (map totalUnits semesterResults),
            totalPoints = sum_list (map totalPoints semesterResults),
            cgpa = fl (spec_round2_half_away
                     (sum_list (map totalPoints semesterResults) /
                      sum_list (map totalUnits semesterResults)))\<rparr>"
proof -
  let ?U = "sum_list (map totalUnits semesterResults)"
  let ?P = "sum_list (map totalPoints semesterResults)"
  have "?U \<in> \<int>" and "?P \<in> \<int>"
    using ints by (intro sum_list_Ints; simp)+
  then obtain u p :: int where u: "?U = of_int u" and p: "?P = of_int p"
    by (auto elim!: Ints_cases)
  have "0 \<le> ?P"
    using ints by (intro sum_list_nonneg) auto
  with pos bp have "0 \<le> p" and "0 < u" and "p < 2 ^ 43"
    unfolding u p by simp_all
  moreover have "frac (100 * of_int p / of_int u :: rat) \<noteq> 1/2"
    using tie unfolding u p .
  ultimately have "js_div (Math_round (js_mul (js_div ?P ?U) 100)) 100 =
                     fl (spec_round2_half_away (?P / ?U))"
    unfolding u p by (rule average_off_ties)
  moreover have "?P < 2 ^ 53"
    using bp by simp
  ultimately show ?thesis
    using calculateCGPA_totals [OF ints pos bu] by simp
qed

lemma calculateGPA_example:
  "calculateGPA [\<lparr>gradePoint = 5, courseUnit = 3\<rparr>, \<lparr>gradePoint = 3, courseUnit = 2\<rparr>] =
     \<lparr>totalUnits = 5, totalPoints = 21, gpa = fl (420/100)\<rparr>"
  by code_simp

lemma calculateCGPA_example:
  "calculateCGPA [\<lparr>totalUnits = 5, totalPoints = 21\<rparr>, \<lparr>totalUnits = 4, totalPoints = 12\<rparr>] =
     \<lparr>totalUnits = 9, totalPoints = 33, cgpa = fl (367/100)\<rparr>"
  by code_simp

text \<open>
  The hypotheses of \<open>calculateGPA_off_ties\<close> hold of the worked example.
\<close>

lemma calculateGPA_off_ties_example:
  "calculateGPA [\<lparr>gradePoint = 5, courseUnit = 3\<rparr>, \<lparr>gradePoint = 3, courseUnit = 2\<rparr>] =
     \<lparr>totalUnits = 5, totalPoints = 21, gpa = fl (spec_round2_half_away (21/5))\<rparr> \<and>
   spec_round2_half_away (21/5) = 420/100"
proof -
  let ?cs = "[\<lparr>gradePoint = 5, courseUnit = 3\<rparr>, \<lparr>gradePoint = 3, courseUnit = 2\<rparr>]"
  have e: "100 * sum_list (map (\<lambda>r. gradePoint r * courseUnit r) ?cs) /
             sum_list (map courseUnit ?cs) = 420"
    by simp
  have h: "frac (420 :: rat) = 0"
    by simp
  have "frac (100 * sum_list (map (\<lambda>r. gradePoint r * courseUnit r) ?cs) /
          sum_list (map courseUnit ?cs)) \<noteq> 1/2"
    unfolding e h by simp
  then have "calculateGPA ?cs =
     \<lparr>totalUnits = sum_list (map courseUnit ?cs),
      totalPoints = sum_list (map (\<lambda>r. gradePoint r * courseUnit r) ?cs),
      gpa = fl (spec_round2_half_away
              (sum_list (map (\<lambda>r. gradePoint r * courseUnit r) ?cs) /
               sum_list (map courseUnit ?cs)))\<rparr>"
    by (intro calculateGPA_off_ties) simp_all
  then have main: "calculateGPA ?cs =
     \<lparr>totalUnits = 5, totalPoints = 21, gpa = fl (spec_round2_half_away (21/5))\<rparr>"
    by simp
  have "spec_round2_half_away (21/5) = 420/100"
    by code_simp
  with main show ?thesis
    by (intro conjI)
qed

text \<open>
  Claim C1, at a course list on which it fails. For a non-empty list of courses with a
  positive unit sum \<open>calculateGPA\<close> is to return the unit sum, the sum of
  \<open>gradePoint \<times> courseUnit\<close>, and their quotient rounded to two decimal places. The totals
  are the sums (\<open>calculateGPA_totals\<close>), the worked example gives 4.20
  (\<open>calculateGPA_example\<close>), and off ties the average is the specified rounding
  (\<open>calculateGPA_off_ties\<close>). On a tie it is not: the seven courses below have 40 units
  and 179 points, the quotient is 4.475 exactly, rounding half away from zero and rounding
  half to even both give 4.48, and \<open>calculateGPA\<close> returns the number 4.47. The binary64
  quotient times 100 is 447.49999999999994, below the tie 447.5, and \<^verbatim>\<open>Math.round\<close> takes
  it down to 447.
\<close>

theorem C1_gpa_tie_rounds_down:
  "calculateGPA
     [\<lparr>gradePoint = 5, courseUnit = 6\<rparr>, \<lparr>gradePoint = 5, courseUnit = 6\<rparr>,
      \<lparr>gradePoint = 5, courseUnit = 6\<rparr>, \<lparr>gradePoint = 5, courseUnit = 6\<rparr>,
      \<lparr>gradePoint = 4, courseUnit = 6\<rparr>, \<lparr>gradePoint = 4, courseUnit = 5\<rparr>,
      \<lparr>gradePoint = 3, courseUnit = 5\<rparr>] =
     \<lparr>totalUnits = 40, totalPoints = 179, gpa = fl (447/100)\<rparr> \<and>
   spec_round2_half_away (179/40) = 448/100 \<and>
   spec_round2_half_even (179/40) = 448/100 \<and>
   fl (447/100) \<noteq> fl (448/100) \<and>
   js_mul (js_div 179 40) 100 = 7872503254876159/17592186044416 \<and>
   (7872503254876159/17592186044416 :: rat) < 895/2"
  by code_simp

text \<open>
  Claim C2, at a list of semesters on which it fails. For a non-empty list of semester
  aggregates with a positive unit sum \<open>calculateCGPA\<close> is to return the two sums and their
  quotient rounded to two decimal places. The totals are the sums
  (\<open>calculateCGPA_totals\<close>), the worked example gives 3.67 (\<open>calculateCGPA_example\<close>), and
  off ties the average is the specified rounding (\<open>calculateCGPA_off_ties\<close>). On a tie it
  is not, as in \<open>calculateGPA\<close>: two semesters of 20 units with 100 and 99 points have the
  quotient 4.975 exactly, both roundings give 4.98, and \<open>calculateCGPA\<close> returns the number
  4.97.
\<close>

theorem C2_cgpa_tie_rounds_down:
  "calculateCGPA [\<lparr>totalUnits = 20, totalPoints = 100\<rparr>, \<lparr>totalUnits = 20, totalPoints = 99\<rparr>] =
     \<lparr>totalUnits = 40, totalPoints = 199, cgpa = fl (497/100)\<rparr> \<and>
   spec_round2_half_away (199/40) = 498/100 \<and>
   spec_round2_half_even (199/40) = 498/100 \<and>
   fl (497/100) \<noteq> fl (498/100) \<and>
   js_mul (js_div 199 40) 100 < 995/2"
  by code_simp

subsection \<open>Evaluating the grade conversions\<close>

lemma gradeToPoint_letters:
  "gradeToPoint ''A'' = 5" "gradeToPoint ''B'' = 4" "gradeToPoint ''C'' = 3"
  "gradeToPoint ''D'' = 2" "gradeToPoint ''E'' = 1" "gradeToPoint ''F'' = 0"
  by code_simp+

lemma gradeToPoint_lower_letters:
  "gradeToPoint ''a'' = 5" "gradeToPoint ''b'' = 4" "gradeToPoint ''c'' = 3"
  "gradeToPoint ''d'' = 2" "gradeToPoint ''e'' = 1" "gradeToPoint ''f'' = 0"
  by code_simp+

lemma scoreToGrade_int:
  fixes s :: int
  assumes "0 \<le> s" "s \<le> 100"
  shows "scoreToGrade (of_int s) =
           Inr (if 70 \<le> s then ''A'' else if 60 \<le> s then ''B'' else if 50 \<le> s then ''C''
                else if 45 \<le> s then ''D'' else if 40 \<le> s then ''E'' else ''F'')"
  using assms by (simp add: scoreToGrade_def GRADING_SCALE_def band_matches_def)

lemma scoreToPoint_int:
  fixes s :: int
  assumes "0 \<le> s" "s \<le> 100"
  shows "scoreToPoint (of_int s) =
           Inr (if 70 \<le> s then 5 else if 60 \<le> s then 4 else if 50 \<le> s then 3
                else if 45 \<le> s then 2 else if 40 \<le> s then 1 else 0)"
  using assms by (simp add: scoreToPoint_def scoreToGrade_int gradeToPoint_letters)

lemma scoreToGrade_in_range:
  assumes "0 \<le> score" "score \<le> 100"
  shows "\<exists>g. scoreToGrade score = Inr g"
  using assms by (simp add: scoreToGrade_def)

lemma scoreToGrade_out_of_range:
  assumes "score < 0 \<or> score > 100"
  shows "scoreToGrade score = Inl (Error ''Score must be between 0 and 100'')"
  using assms by (auto simp add: scoreToGrade_def)

subsection \<open>The band table\<close>

text \<open>
  Claim C3. For every integer score from 0 to 100 exactly one entry of \<open>GRADING_SCALE\<close>
  satisfies \<open>minScore \<le> score \<le> maxScore\<close>: the entries that match form a list of length
  one. The table is the six bands 70--100 A/5, 60--69 B/4, 50--59 C/3, 45--49 D/2,
  40--44 E/1, 0--39 F/0, and on each side of the boundaries 39/40, 44/45, 49/50, 59/60
  and 69/70 the one matching band is the listed one.
\<close>

theorem C3_band_coverage:
  fixes s :: int
  assumes "0 \<le> s" and "s \<le> 100"
  shows "(\<exists>g. filter (band_matches (of_int s)) GRADING_SCALE = [g]) \<and>
         map (\<lambda>g. (minScore g, maxScore g, grade g, point g)) GRADING_SCALE =
           [(70, 100, ''A'', 5), (60, 69, ''B'', 4), (50, 59, ''C'', 3),
            (45, 49, ''D'', 2), (40, 44, ''E'', 1), (0, 39, ''F'', 0)] \<and>
         map (\<lambda>n. map grade (filter (band_matches n) GRADING_SCALE))
             [39, 40, 44, 45, 49, 50, 59, 60, 69, 70] =
           [[''F''], [''E''], [''E''], [''D''], [''D''], [''C''], [''C''], [''B''], [''B''], [''A'']]"
  using assms by (simp add: GRADING_SCALE_def band_matches_def)

theorem C3_band_coverage_witness:
  "(0::int) \<le> 55 \<and> (55::int) \<le> 100 \<and>
   (\<exists>g. filter (band_matches (of_int 55)) GRADING_SCALE = [g])"
  using C3_band_coverage [of 55] by simp

subsection \<open>Range validation\<close>

text \<open>
  Claim C4, as stated: a score below 0 or above 100 makes \<open>scoreToGrade\<close> and
  \<open>scoreToPoint\<close> raise a \<^verbatim>\<open>RangeError\<close>. It fails at the score \<open>-1\<close> (and at every
  other score out of range): the source throws \<^verbatim>\<open>new Error('Score must be between 0 and 100')\<close>,
  an instance of the generic \<^verbatim>\<open>Error\<close> class and not of \<^verbatim>\<open>RangeError\<close>.
\<close>

theorem C4_not_a_RangeError:
  "scoreToGrade (- 1) = Inl (Error ''Score must be between 0 and 100'') \<and>
   \<not> raises_RangeError (scoreToGrade (- 1)) \<and>
   \<not> raises_RangeError (scoreToPoint (- 1))"
  by (simp add: scoreToPoint_def scoreToGrade_def)

text \<open>
  Claim C4, amended: a score below 0 or above 100 makes \<open>scoreToGrade\<close> and
  \<open>scoreToPoint\<close> raise the generic \<^verbatim>\<open>Error\<close> with the message
  \<^verbatim>\<open>Score must be between 0 and 100\<close>; the check is made in \<open>scoreToGrade\<close> only and
  \<open>scoreToPoint\<close> raises exactly what its call of \<open>scoreToGrade\<close> raises; for a score from
  0 to 100 neither function raises.
\<close>

theorem C4_range_validation:
  "(score < 0 \<or> score > 100 \<longrightarrow>
      scoreToGrade score = Inl (Error ''Score must be between 0 and 100'') \<and>
      scoreToPoint score = Inl (Error ''Score must be between 0 and 100'')) \<and>
   (0 \<le> score \<and> score \<le> 100 \<longrightarrow>
      \<not> raises (scoreToGrade score) \<and> \<not> raises (scoreToPoint score)) \<and>
   scoreToPoint score =
     (case scoreToGrade score of Inl e \<Rightarrow> Inl e | Inr g \<Rightarrow> Inr (gradeToPoint g))"
proof (intro conjI impI)
  assume out: "score < 0 \<or> score > 100"
  then show "scoreToGrade score = Inl (Error ''Score must be between 0 and 100'')"
    by (rule scoreToGrade_out_of_range)
  then show "scoreToPoint score = Inl (Error ''Score must be between 0 and 100'')"
    by (simp add: scoreToPoint_def)
next
  assume "0 \<le> score \<and> score \<le> 100"
  then obtain g where g: "scoreToGrade score = Inr g"
    using scoreToGrade_in_range by blast
  then show "\<not> raises (scoreToGrade score)" by simp
  from g show "\<not> raises (scoreToPoint score)" by (simp add: scoreToPoint_def)
next
  show "scoreToPoint score =
          (case scoreToGrade score of Inl e \<Rightarrow> Inl e | Inr g \<Rightarrow> Inr (gradeToPoint g))"
    by (simp add: scoreToPoint_def)
qed

theorem C4_range_validation_witness:
  "scoreToGrade (- 1) = Inl (Error ''Score must be between 0 and 100'') \<and>
   scoreToPoint 101 = Inl (Error ''Score must be between 0 and 100'') \<and>
   \<not> raises (scoreToGrade 50) \<and> \<not> raises (scoreToPoint 50)"
  using C4_range_validation [of "- 1", THEN conjunct1]
    C4_range_validation [of 101, THEN conjunct1]
    C4_range_validation [of 50, THEN conjunct2, THEN conjunct1]
  by simp

subsection \<open>Class of degree\<close>

text \<open>
  Claim C5. \<open>getClassOfDegree\<close> is a descending ladder of thresholds in which the first
  match wins: from 4.50 up First Class Honours, otherwise from 3.50 up Second Class Upper,
  otherwise from 2.50 up Second Class Lower, otherwise from 1.50 up Third Class, otherwise
  from 1.00 up Pass, otherwise Fail. At 4.50 the result is First Class Honours and at 4.49
  (the exact decimal, and the binary64 number that the literal \<^verbatim>\<open>4.49\<close> denotes) it is
  Second Class Upper.
\<close>

theorem C5_class_ladder:
  "(9/2 \<le> c \<longrightarrow> getClassOfDegree c = ''First Class Honours'') \<and>
   (\<not> 9/2 \<le> c \<and> 7/2 \<le> c \<longrightarrow> getClassOfDegree c = ''Second Class Upper'') \<and>
   (\<not> 9/2 \<le> c \<and> \<not> 7/2 \<le> c \<and> 5/2 \<le> c \<longrightarrow> getClassOfDegree c = ''Second Class Lower'') \<and>
   (\<not> 9/2 \<le> c \<and> \<not> 7/2 \<le> c \<and> \<not> 5/2 \<le> c \<and> 3/2 \<le> c \<longrightarrow>
      getClassOfDegree c = ''Third Class'') \<and>
   (\<not> 9/2 \<le> c \<and> \<not> 7/2 \<le> c \<and> \<not> 5/2 \<le> c \<and> \<not> 3/2 \<le> c \<and> 1 \<le> c \<longrightarrow>
      getClassOfDegree c = ''Pass'') \<and>
   (\<not> 9/2 \<le> c \<and> \<not> 7/2 \<le> c \<and> \<not> 5/2 \<le> c \<and> \<not> 3/2 \<le> c \<and> \<not> 1 \<le> c \<longrightarrow>
      getClassOfDegree c = ''Fail'') \<and>
   getClassOfDegree (450/100) = ''First Class Honours'' \<and>
   getClassOfDegree (449/100) = ''Second Class Upper'' \<and>
   getClassOfDegree (fl (449/100)) = ''Second Class Upper''"
proof -
  have "fl (449/100) = 2527645290861691/562949953421312"
    by code_simp
  then show ?thesis
    by (simp add: getClassOfDegree_def)
qed

theorem C5_class_ladder_witness:
  "getClassOfDegree 5 = ''First Class Honours'' \<and>
   getClassOfDegree 4 = ''Second Class Upper'' \<and>
   getClassOfDegree 3 = ''Second Class Lower'' \<and>
   getClassOfDegree 2 = ''Third Class'' \<and>
   getClassOfDegree 1 = ''Pass'' \<and>
   getClassOfDegree 0 = ''Fail''"
  using C5_class_ladder [of 5] C5_class_ladder [of 4] C5_class_ladder [of 3]
    C5_class_ladder [of 2] C5_class_ladder [of 1] C5_class_ladder [of 0]
  by simp

subsection \<open>No units\<close>

lemma calculateGPA_zero_units:
  assumes "foldl (\<lambda>sum r. js_add sum (courseUnit r)) 0 results = 0"
  shows "calculateGPA results = \<lparr>totalUnits = 0, totalPoints = 0, gpa = 0\<rparr>"
  using assms by (simp add: calculateGPA_def Let_def)

lemma calculateCGPA_zero_units:
  assumes "foldl (\<lambda>sum s. js_add sum (totalUnits s)) 0 semesterResults = 0"
  shows "calculateCGPA semesterResults = \<lparr>totalUnits = 0, totalPoints = 0, cgpa = 0\<rparr>"
  using assms by (simp add: calculateCGPA_def Let_def)

lemma foldl_units_zero:
  assumes "\<forall>r \<in> set rs. 0 \<le> f r" and "sum_list (map f rs) = 0"
  shows "foldl (\<lambda>sum r. js_add sum (f r)) 0 rs = 0"
proof -
  have "\<forall>x \<in> set (map f rs). 0 \<le> x"
    using assms(1) by simp
  then have "\<forall>x \<in> set (map f rs). x = 0"
    using assms(2) by (simp only: sum_list_nonneg_eq_0_iff)
  then have "\<forall>r \<in> set rs. f r = 0"
    by simp
  with foldl_js_add_nonneg [OF assms(1), of 0] show ?thesis
    by simp
qed

text \<open>
  Claim C6. \<open>calculateGPA\<close> and \<open>calculateCGPA\<close> on the empty list, and on every list
  whose summed units are 0, return the record of three zeros; they have no failing result
  and divide only after the test for 0. The summed units are taken as the source sums
  them, and also as the exact sum when no unit is negative. The points of the result are 0
  whatever the points of the input: a semester with 0 units and 7 points gives the three
  zeros.
\<close>

theorem C6_zero_sentinel:
  "calculateGPA [] = \<lparr>totalUnits = 0, totalPoints = 0, gpa = 0\<rparr> \<and>
   calculateCGPA [] = \<lparr>totalUnits = 0, totalPoints = 0, cgpa = 0\<rparr> \<and>
   (foldl (\<lambda>sum r. js_add sum (courseUnit r)) 0 results = 0 \<longrightarrow>
      calculateGPA results = \<lparr>totalUnits = 0, totalPoints = 0, gpa = 0\<rparr>) \<and>
   (foldl (\<lambda>sum s. js_add sum (totalUnits s)) 0 semesterResults = 0 \<longrightarrow>
      calculateCGPA semesterResults = \<lparr>totalUnits = 0, totalPoints = 0, cgpa = 0\<rparr>) \<and>
   ((\<forall>r \<in> set results. 0 \<le> courseUnit r) \<and> sum_list (map courseUnit results) = 0 \<longrightarrow>
      calculateGPA results = \<lparr>totalUnits = 0, totalPoints = 0, gpa = 0\<rparr>) \<and>
   ((\<forall>s \<in> set semesterResults. 0 \<le> totalUnits s) \<and>
      sum_list (map totalUnits semesterResults) = 0 \<longrightarrow>
      calculateCGPA semesterResults = \<lparr>totalUnits = 0, totalPoints = 0, cgpa = 0\<rparr>) \<and>
   calculateCGPA [\<lparr>totalUnits = 0, totalPoints = 7\<rparr>] =
     \<lparr>totalUnits = 0, totalPoints = 0, cgpa = 0\<rparr>"
proof (intro conjI impI)
  show "calculateGPA [] = \<lparr>totalUnits = 0, totalPoints = 0, gpa = 0\<rparr>"
    by (simp add: calculateGPA_def)
  show "calculateCGPA [] = \<lparr>totalUnits = 0, totalPoints = 0, cgpa = 0\<rparr>"
    by (simp add: calculateCGPA_def)
  show "calculateGPA results = \<lparr>totalUnits = 0, totalPoints = 0, gpa = 0\<rparr>"
    if "foldl (\<lambda>sum r. js_add sum (courseUnit r)) 0 results = 0"
    using that by (rule calculateGPA_zero_units)
  show "calculateCGPA semesterResults = \<lparr>totalUnits = 0, totalPoints = 0, cgpa = 0\<rparr>"
    if "foldl (\<lambda>sum s. js_add sum (totalUnits s)) 0 semesterResults = 0"
    using that by (rule calculateCGPA_zero_units)
  show "calculateGPA results = \<lparr>totalUnits = 0, totalPoints = 0, gpa = 0\<rparr>"
    if "(\<forall>r \<in> set results. 0 \<le> courseUnit r) \<and> sum_list (map courseUnit results) = 0"
    using that by (intro calculateGPA_zero_units foldl_units_zero) simp_all
  show "calculateCGPA semesterResults = \<lparr>totalUnits = 0, totalPoints = 0, cgpa = 0\<rparr>"
    if "(\<forall>s \<in> set semesterResults. 0 \<le> totalUnits s) \<and>
        sum_list (map totalUnits semesterResults) = 0"
    using that by (intro calculateCGPA_zero_units foldl_units_zero) simp_all
  show "calculateCGPA [\<lparr>totalUnits = 0, totalPoints = 7\<rparr>] =
          \<lparr>totalUnits = 0, totalPoints = 0, cgpa = 0\<rparr>"
    by (simp add: calculateCGPA_def js_add_def fl_0)
qed

theorem C6_zero_sentinel_witness:
  "calculateGPA [\<lparr>gradePoint = 5, courseUnit = 0\<rparr>, \<lparr>gradePoint = 3, courseUnit = 0\<rparr>] =
     \<lparr>totalUnits = 0, totalPoints = 0, gpa = 0\<rparr> \<and>
   calculateCGPA [\<lparr>totalUnits = 0, totalPoints = 7\<rparr>, \<lparr>totalUnits = 0, totalPoints = 3\<rparr>] =
     \<lparr>totalUnits = 0, totalPoints = 0, cgpa = 0\<rparr> \<and>
   calculateCGPA [\<lparr>totalUnits = 3, totalPoints = 7\<rparr>, \<lparr>totalUnits = - 3, totalPoints = 3\<rparr>] =
     \<lparr>totalUnits = 0, totalPoints = 0, cgpa = 0\<rparr>"
proof -
  let ?cs = "[\<lparr>gradePoint = 5, courseUnit = 0\<rparr>, \<lparr>gradePoint = 3, courseUnit = 0\<rparr>]"
  let ?ss = "[\<lparr>totalUnits = 0, totalPoints = 7\<rparr>, \<lparr>totalUnits = 0, totalPoints = 3\<rparr>]"
  let ?ts = "[\<lparr>totalUnits = 3, totalPoints = 7\<rparr>, \<lparr>totalUnits = - 3, totalPoints = 3\<rparr>]"
  have 1: "(\<forall>r \<in> set ?cs. 0 \<le> courseUnit r) \<and> sum_list (map courseUnit ?cs) = 0"
    by simp
  have 2: "(\<forall>s \<in> set ?ss. 0 \<le> totalUnits s) \<and> sum_list (map totalUnits ?ss) = 0"
    by simp
  have 3: "foldl (\<lambda>sum s. js_add sum (totalUnits s)) 0 ?ts = 0"
    by code_simp
  from 1 have "calculateGPA ?cs = \<lparr>totalUnits = 0, totalPoints = 0, gpa = 0\<rparr>"
    using C6_zero_sentinel [of ?cs ?ss] by blast
  moreover from 2 have "calculateCGPA ?ss = \<lparr>totalUnits = 0, totalPoints = 0, cgpa = 0\<rparr>"
    using C6_zero_sentinel [of ?cs ?ss] by blast
  moreover from 3 have "calculateCGPA ?ts = \<lparr>totalUnits = 0, totalPoints = 0, cgpa = 0\<rparr>"
    using C6_zero_sentinel [of ?cs ?ts] by blast
  ultimately show ?thesis
    by blast
qed

subsection \<open>Grade points of integer scores\<close>

text \<open>
  Claim C7. For integer scores \<open>s1 \<le> s2\<close>, both from 0 to 100, \<open>scoreToPoint\<close> returns a
  point for each, the point of \<open>s1\<close> is at most the point of \<open>s2\<close>, and each point is one
  of 0, 1, 2, 3, 4, 5.
\<close>

theorem C7_scoreToPoint_monotone:
  fixes s1 s2 :: int
  assumes "0 \<le> s1" and "s1 \<le> s2" and "s2 \<le> 100"
  shows "\<exists>p1 p2. scoreToPoint (of_int s1) = Inr p1 \<and> scoreToPoint (of_int s2) = Inr p2 \<and>
           p1 \<le> p2 \<and> p1 \<in> {0, 1, 2, 3, 4, 5} \<and> p2 \<in> {0, 1, 2, 3, 4, 5}"
proof -
  have "0 \<le> s2" and "s1 \<le> 100"
    using assms by simp_all
  with assms show ?thesis
    by (simp add: scoreToPoint_int)
qed

theorem C7_scoreToPoint_monotone_witness:
  "(0::int) \<le> 44 \<and> (44::int) \<le> 45 \<and> (45::int) \<le> 100 \<and>
   (\<exists>p1 p2. scoreToPoint (of_int 44) = Inr p1 \<and> scoreToPoint (of_int 45) = Inr p2 \<and>
      p1 \<le> p2 \<and> p1 \<in> {0, 1, 2, 3, 4, 5} \<and> p2 \<in> {0, 1, 2, 3, 4, 5})"
  using C7_scoreToPoint_monotone [of 44 45] by simp

subsection \<open>Composition and round trip\<close>

text \<open>
  Claim C8. For every score from 0 to 100, \<open>scoreToGrade\<close> returns a grade and
  \<open>scoreToPoint\<close> returns \<open>gradeToPoint\<close> of that grade. At the minimum score of every
  band of the table, \<open>scoreToGrade\<close> returns the band's letter, \<open>gradeToPoint\<close> maps the
  letter to the band's point and \<open>scoreToPoint\<close> returns that point; so
  \<open>scoreToGrade 70\<close> is A and \<open>gradeToPoint\<close> of A is 5.
\<close>

theorem C8_composition_round_trip:
  assumes "0 \<le> score" and "score \<le> 100"
  shows "(\<exists>g. scoreToGrade score = Inr g \<and> scoreToPoint score = Inr (gradeToPoint g)) \<and>
         (\<forall>b \<in> set GRADING_SCALE.
            scoreToGrade (minScore b) = Inr (grade b) \<and>
            gradeToPoint (grade b) = point b \<and>
            scoreToPoint (minScore b) = Inr (point b)) \<and>
         scoreToGrade 70 = Inr ''A'' \<and> gradeToPoint ''A'' = 5"
proof (intro conjI)
  obtain g where "scoreToGrade score = Inr g"
    using assms scoreToGrade_in_range by blast
  then show "\<exists>g. scoreToGrade score = Inr g \<and> scoreToPoint score = Inr (gradeToPoint g)"
    by (simp add: scoreToPoint_def)
next
  have grades: "scoreToGrade 70 = Inr ''A''" "scoreToGrade 60 = Inr ''B''"
    "scoreToGrade 50 = Inr ''C''" "scoreToGrade 45 = Inr ''D''"
    "scoreToGrade 40 = Inr ''E''" "scoreToGrade 0 = Inr ''F''"
    by (simp_all add: scoreToGrade_def GRADING_SCALE_def band_matches_def)
  then show "scoreToGrade 70 = Inr ''A''"
    by simp
  show "gradeToPoint ''A'' = 5"
    by (rule gradeToPoint_letters)
  show "\<forall>b \<in> set GRADING_SCALE.
          scoreToGrade (minScore b) = Inr (grade b) \<and>
          gradeToPoint (grade b) = point b \<and>
          scoreToPoint (minScore b) = Inr (point b)"
    by (simp add: GRADING_SCALE_def scoreToPoint_def grades gradeToPoint_letters)
qed

theorem C8_composition_round_trip_witness:
  "(0::rat) \<le> 45 \<and> (45::rat) \<le> 100 \<and>
   (\<exists>g. scoreToGrade 45 = Inr g \<and> scoreToPoint 45 = Inr (gradeToPoint g)) \<and>
   scoreToGrade (minScore \<lparr>minScore = 45, maxScore = 49, grade = ''D'', point = 2\<rparr>) = Inr ''D'' \<and>
   gradeToPoint ''D'' = 2"
proof -
  have b: "\<lparr>minScore = 45, maxScore = 49, grade = ''D'', point = 2\<rparr> \<in> set GRADING_SCALE"
    by (simp add: GRADING_SCALE_def)
  have r: "(0::rat) \<le> 45" "(45::rat) \<le> 100"
    by simp_all
  from C8_composition_round_trip [OF r] b show ?thesis
    by fastforce
qed

subsection \<open>Lookup of a grade letter\<close>

lemma toUpperCase_char_idem: "toUpperCase_char (toUpperCase_char c) = toUpperCase_char c"
  by (auto simp add: toUpperCase_char_def Let_def)

lemma toUpperCase_idem: "toUpperCase (toUpperCase s) = toUpperCase s"
  by (simp add: toUpperCase_def toUpperCase_char_idem)

lemma gradeToPoint_of_band:
  assumes "b \<in> set GRADING_SCALE" and "toUpperCase g = grade b"
  shows "gradeToPoint g = point b"
  using assms by (auto simp add: gradeToPoint_def GRADING_SCALE_def)

lemma gradeToPoint_unknown:
  assumes "toUpperCase g \<notin> grade ` set GRADING_SCALE"
  shows "gradeToPoint g = 0"
proof -
  have "find (\<lambda>b. grade b = toUpperCase g) GRADING_SCALE = None"
    unfolding find_None_iff using assms by force
  then show ?thesis
    by (simp add: gradeToPoint_def)
qed

text \<open>
  Claim C9. \<open>gradeToPoint\<close> looks the letter up in the band table after folding it to
  upper case: two strings with the same upper case get the same point, a string whose
  upper case is the letter of a band gets that band's point (so \<open>a\<close> and \<open>A\<close> both give
  5), and a string whose upper case is the letter of no band (such as \<open>Z\<close>) gives 0. The
  function returns a number on every string: it has no failing result.
\<close>

theorem C9_gradeToPoint_lookup:
  "gradeToPoint ''a'' = 5 \<and> gradeToPoint ''A'' = 5 \<and> gradeToPoint ''Z'' = 0 \<and>
   gradeToPoint (toUpperCase g) = gradeToPoint g \<and>
   (toUpperCase g = toUpperCase h \<longrightarrow> gradeToPoint g = gradeToPoint h) \<and>
   (\<forall>b \<in> set GRADING_SCALE. toUpperCase g = grade b \<longrightarrow> gradeToPoint g = point b) \<and>
   (toUpperCase g \<notin> grade ` set GRADING_SCALE \<longrightarrow> gradeToPoint g = 0)"
proof (intro conjI impI ballI)
  show "gradeToPoint ''a'' = 5" and "gradeToPoint ''A'' = 5"
    by (rule gradeToPoint_lower_letters gradeToPoint_letters)+
  show "gradeToPoint ''Z'' = 0"
    by code_simp
  show "gradeToPoint (toUpperCase g) = gradeToPoint g"
    by (simp add: gradeToPoint_def toUpperCase_idem)
  show "gradeToPoint g = gradeToPoint h" if "toUpperCase g = toUpperCase h"
    using that by (simp add: gradeToPoint_def)
  show "gradeToPoint g = point b" if "b \<in> set GRADING_SCALE" and "toUpperCase g = grade b" for b
    using that by (rule gradeToPoint_of_band)
  show "gradeToPoint g = 0" if "toUpperCase g \<notin> grade ` set GRADING_SCALE"
    using that by (rule gradeToPoint_unknown)
qed

theorem C9_gradeToPoint_lookup_witness:
  "gradeToPoint ''b'' = gradeToPoint ''B'' \<and> gradeToPoint ''b'' = 4 \<and> gradeToPoint ''zz'' = 0"
proof -
  have up: "toUpperCase ''b'' = toUpperCase ''B''" "toUpperCase ''b'' = ''B''"
    "toUpperCase ''zz'' = ''ZZ''"
    by code_simp+
  have b: "\<lparr>minScore = 60, maxScore = 69, grade = ''B'', point = 4\<rparr> \<in> set GRADING_SCALE"
    by (simp add: GRADING_SCALE_def)
  have z: "toUpperCase ''zz'' \<notin> grade ` set GRADING_SCALE"
    unfolding up by (simp add: GRADING_SCALE_def)
  have "toUpperCase ''b'' = toUpperCase ''B'' \<longrightarrow> gradeToPoint ''b'' = gradeToPoint ''B''"
    using C9_gradeToPoint_lookup [of "''b''" "''B''"] by blast
  with up(1) have 1: "gradeToPoint ''b'' = gradeToPoint ''B''"
    by blast
  have "\<forall>b \<in> set GRADING_SCALE. toUpperCase ''b'' = grade b \<longrightarrow> gradeToPoint ''b'' = point b"
    using C9_gradeToPoint_lookup [of "''b''" "''B''"] by blast
  with b up(2) have 2: "gradeToPoint ''b'' = 4"
    by fastforce
  have "toUpperCase ''zz'' \<notin> grade ` set GRADING_SCALE \<longrightarrow> gradeToPoint ''zz'' = 0"
    using C9_gradeToPoint_lookup [of "''zz''" "''zz''"] by blast
  with z have 3: "gradeToPoint ''zz'' = 0"
    by blast
  from 1 2 3 show ?thesis
    by blast
qed

subsection \<open>Scores between two bands\<close>

lemma find_band_None:
  "find (band_matches s) GRADING_SCALE = None \<longleftrightarrow>
     \<not> (70 \<le> s \<and> s \<le> 100) \<and> \<not> (60 \<le> s \<and> s \<le> 69) \<and> \<not> (50 \<le> s \<and> s \<le> 59) \<and>
     \<not> (45 \<le> s \<and> s \<le> 49) \<and> \<not> (40 \<le> s \<and> s \<le> 44) \<and> \<not> (0 \<le> s \<and> s \<le> 39)"
  by (simp add: find_None_iff GRADING_SCALE_def band_matches_def)

lemma gap_iff:
  "0 \<le> s \<and> s \<le> 100 \<and> find (band_matches s) GRADING_SCALE = None \<longleftrightarrow>
     (39 < s \<and> s < 40) \<or> (44 < s \<and> s < 45) \<or> (49 < s \<and> s < 50) \<or>
     (59 < s \<and> s < 60) \<or> (69 < s \<and> s < 70)"
  unfolding find_band_None by linarith

lemma gap_default:
  assumes "find (band_matches s) GRADING_SCALE = None" and "0 \<le> s" and "s \<le> 100"
  shows "scoreToGrade s = Inr ''F''" and "scoreToPoint s = Inr 0"
  using assms by (simp_all add: scoreToPoint_def scoreToGrade_def gradeToPoint_letters)

text \<open>
  Claim C10. A score from 0 to 100 is matched by no entry of \<open>GRADING_SCALE\<close> exactly when
  it lies strictly between 39 and 40, 44 and 45, 49 and 50, 59 and 60, or 69 and 70. For
  every such score \<open>find\<close> returns nothing, \<open>scoreToGrade\<close> returns the default F and
  \<open>scoreToPoint\<close> returns 0, neither raising; so it is at 39.5, 44.3, 49.9, 59.5 and 69.5
  (44.3 and 49.9 taken as the binary64 numbers their literals denote).
\<close>

theorem C10_gap_scores_default_to_F:
  "((39 < s \<and> s < 40) \<or> (44 < s \<and> s < 45) \<or> (49 < s \<and> s < 50) \<or>
    (59 < s \<and> s < 60) \<or> (69 < s \<and> s < 70) \<longrightarrow>
      find (band_matches s) GRADING_SCALE = None \<and>
      scoreToGrade s = Inr ''F'' \<and> scoreToPoint s = Inr 0) \<and>
   (0 \<le> s \<and> s \<le> 100 \<and> find (band_matches s) GRADING_SCALE = None \<longleftrightarrow>
      (39 < s \<and> s < 40) \<or> (44 < s \<and> s < 45) \<or> (49 < s \<and> s < 50) \<or>
      (59 < s \<and> s < 60) \<or> (69 < s \<and> s < 70)) \<and>
   map scoreToGrade [79/2, fl (443/10), fl (499/10), 119/2, 139/2] =
     [Inr ''F'', Inr ''F'', Inr ''F'', Inr ''F'', Inr ''F''] \<and>
   map scoreToPoint [79/2, fl (443/10), fl (499/10), 119/2, 139/2] =
     [Inr 0, Inr 0, Inr 0, Inr 0, Inr 0]"
proof (intro conjI impI)
  assume "(39 < s \<and> s < 40) \<or> (44 < s \<and> s < 45) \<or> (49 < s \<and> s < 50) \<or>
          (59 < s \<and> s < 60) \<or> (69 < s \<and> s < 70)"
  then have gap: "0 \<le> s \<and> s \<le> 100 \<and> find (band_matches s) GRADING_SCALE = None"
    by (simp only: gap_iff)
  then show "find (band_matches s) GRADING_SCALE = None"
    by simp
  from gap show "scoreToGrade s = Inr ''F''" and "scoreToPoint s = Inr 0"
    by (simp_all add: gap_default)
next
  show "0 \<le> s \<and> s \<le> 100 \<and> find (band_matches s) GRADING_SCALE = None \<longleftrightarrow>
          (39 < s \<and> s < 40) \<or> (44 < s \<and> s < 45) \<or> (49 < s \<and> s < 50) \<or>
          (59 < s \<and> s < 60) \<or> (69 < s \<and> s < 70)"
    by (rule gap_iff)
next
  have lits: "fl (443/10) = 3117335367070515/70368744177664"
    "fl (499/10) = 7022800668930867/140737488355328"
    by code_simp+
  have none: "find (band_matches x) GRADING_SCALE = None \<and> 0 \<le> x \<and> x \<le> 100"
    if "x \<in> set [79/2, fl (443/10), fl (499/10), 119/2, 139/2]" for x
    using that unfolding lits find_band_None by auto
  show "map scoreToGrade [79/2, fl (443/10), fl (499/10), 119/2, 139/2] =
          [Inr ''F'', Inr ''F'', Inr ''F'', Inr ''F'', Inr ''F'']"
    using none by (simp add: gap_default)
  show "map scoreToPoint [79/2, fl (443/10), fl (499/10), 119/2, 139/2] =
          [Inr 0, Inr 0, Inr 0, Inr 0, Inr 0]"
    using none by (simp add: gap_default)
qed

theorem C10_gap_scores_default_to_F_witness:
  "(39::rat) < 79/2 \<and> (79/2::rat) < 40 \<and>
   find (band_matches (79/2)) GRADING_SCALE = None \<and>
   scoreToGrade (79/2) = Inr ''F'' \<and> scoreToPoint (79/2) = Inr 0"
  using C10_gap_scores_default_to_F [of "79/2", THEN conjunct1] by simp

end
